theory Spec2Isabelle
  imports Main "HOL-Library.Multiset"
begin

section \<open>Paths and the filesystem\<close>

text \<open>
  The program builds its paths with \<^verbatim>\<open>pathlib.Path\<close> (POSIX flavour). A path is a root
  flag and the list of its parts. Parsing a string splits it at \<^verbatim>\<open>/\<close> and drops the empty
  parts and the parts \<^verbatim>\<open>.\<close>; joining with an absolute string replaces the left operand.
  (The two-slash root of POSIX is not distinguished from the one-slash root.)
\<close>

datatype path = Path (anchored: bool) (parts: "string list")

fun split_sep :: "string \<Rightarrow> string list" where
  "split_sep [] = [[]]"
| "split_sep (c # cs) =
     (if c = CHR ''/'' then [] # split_sep cs
      else (case split_sep cs of [] \<Rightarrow> [[c]] | w # ws \<Rightarrow> (c # w) # ws))"

definition parse_path :: "string \<Rightarrow> path" where
  "parse_path s =
     Path (s \<noteq> [] \<and> hd s = CHR ''/'') (filter (\<lambda>w. w \<noteq> [] \<and> w \<noteq> ''.'') (split_sep s))"

text \<open>\<^verbatim>\<open>p / s\<close>\<close>

definition joinpath :: "path \<Rightarrow> string \<Rightarrow> path" where
  "joinpath p s =
     (let q = parse_path s
      in if anchored q then q else Path (anchored p) (parts p @ parts q))"

text \<open>\<^verbatim>\<open>p.name\<close>: the last part, or the empty string.\<close>

definition name_of :: "path \<Rightarrow> string" where
  "name_of p = (if parts p = [] then [] else last (parts p))"

text \<open>
  \<^verbatim>\<open>p.suffix\<close>: with \<^verbatim>\<open>i = name.rfind('.')\<close>, the text from the last dot on when
  \<^verbatim>\<open>0 < i < len(name) - 1\<close>, and the empty string otherwise.
\<close>

definition suffix_of :: "string \<Rightarrow> string" where
  "suffix_of nm =
     (let ext = rev (takeWhile (\<lambda>c. c \<noteq> CHR ''.'') (rev nm))
      in if CHR ''.'' \<in> set nm \<and> ext \<noteq> [] \<and> length ext + 1 < length nm
         then CHR ''.'' # ext else [])"

datatype error =
    FileExistsError | FileNotFoundError | NotADirectoryError | IsADirectoryError
  | ParserError | ValueError | TypeError | AttributeError | KeyError

text \<open>
  \<^verbatim>\<open>p.with_suffix(sfx)\<close> for a well-formed \<^verbatim>\<open>sfx\<close>: a path with an empty name raises
  \<^verbatim>\<open>ValueError\<close>; otherwise the old suffix is cut off the name and \<^verbatim>\<open>sfx\<close> appended.
\<close>

definition with_suffix :: "path \<Rightarrow> string \<Rightarrow> error + path" where
  "with_suffix p sfx =
     (let nm = name_of p
      in if nm = [] then Inl ValueError
         else Inr (Path (anchored p)
                (butlast (parts p) @ [take (length nm - length (suffix_of nm)) nm @ sfx])))"

subsection \<open>Rows and tables\<close>

text \<open>
  A row of a pandas DataFrame with the columns the program reads or writes; the other
  columns of the service's answer travel in \<open>attrs\<close>. A table is the list of its rows, each
  with its index label (the product's id), in order; labels may repeat.
\<close>

record row =
  title :: string
  "identifier" :: string
  beginposition :: int
  date :: string
  tile :: string
  online :: bool
  downloaded :: bool
  qlook :: bool
  attrs :: "(string \<times> string) list"

type_synonym df = "(string \<times> row) list"

definition index :: "df \<Rightarrow> string list" where
  "index t = map fst t"

text \<open>\<^verbatim>\<open>t[~t.index.duplicated()]\<close>: every row whose label did not occur before it.\<close>

fun drop_duplicated_from :: "string list \<Rightarrow> df \<Rightarrow> df" where
  "drop_duplicated_from seen [] = []"
| "drop_duplicated_from seen ((k, r) # t) =
     (if k \<in> set seen then drop_duplicated_from seen t
      else (k, r) # drop_duplicated_from (k # seen) t)"

definition drop_duplicated :: "df \<Rightarrow> df" where
  "drop_duplicated t = drop_duplicated_from [] t"

subsection \<open>Filesystem\<close>

text \<open>
  The filesystem maps a path to what is there: a directory, the ledger written by
  \<^verbatim>\<open>to_csv\<close> (read back by \<^verbatim>\<open>read_csv\<close> as the same table), or any other file. The path
  without parts (the working directory or the root) is always a directory.

  Two idealisations of the libraries: \<^verbatim>\<open>read_csv\<close> gives the table back as it was written
  (pandas infers the type of every column anew, so that a text of digits comes back as a
  number), and \<^verbatim>\<open>Path.exists\<close> answers for every path (the operating system refuses some,
  such as an over-long name, with \<^verbatim>\<open>OSError\<close>).
\<close>

datatype node = Dir | Csv df | File

type_synonym fs = "path \<Rightarrow> node option"

definition node_at :: "fs \<Rightarrow> path \<Rightarrow> node option" where
  "node_at f p = (if parts p = [] then Some Dir else f p)"

definition exists :: "fs \<Rightarrow> path \<Rightarrow> bool" where
  "exists f p = (node_at f p \<noteq> None)"

definition parent :: "path \<Rightarrow> path" where
  "parent p = Path (anchored p) (butlast (parts p))"

text \<open>
  \<^verbatim>\<open>p.mkdir(parents=True)\<close>: fails when \<open>p\<close> exists or an ancestor is not a directory;
  otherwise creates the missing ancestors and \<open>p\<close>.
\<close>

fun make_dirs :: "fs \<Rightarrow> bool \<Rightarrow> string list \<Rightarrow> string list \<Rightarrow> error + fs" where
  "make_dirs f a pre [] = Inr f"
| "make_dirs f a pre (c # cs) =
     (case f (Path a (pre @ [c])) of
        None \<Rightarrow> make_dirs (f(Path a (pre @ [c]) \<mapsto> Dir)) a (pre @ [c]) cs
      | Some Dir \<Rightarrow> make_dirs f a (pre @ [c]) cs
      | Some _ \<Rightarrow> Inl NotADirectoryError)"

definition mkdir :: "fs \<Rightarrow> path \<Rightarrow> error + fs" where
  "mkdir f p =
     (if exists f p then Inl FileExistsError
      else make_dirs f (anchored p) [] (parts p))"

text \<open>\<^verbatim>\<open>t.to_csv(p)\<close> opens \<open>p\<close> for writing.\<close>

definition to_csv :: "fs \<Rightarrow> path \<Rightarrow> df \<Rightarrow> error + fs" where
  "to_csv f p t =
     (case node_at f (parent p) of
        None \<Rightarrow> Inl FileNotFoundError
      | Some Dir \<Rightarrow>
          (if node_at f p = Some Dir then Inl IsADirectoryError else Inr (f(p \<mapsto> Csv t)))
      | Some _ \<Rightarrow> Inl NotADirectoryError)"

definition read_csv :: "fs \<Rightarrow> path \<Rightarrow> error + df" where
  "read_csv f p =
     (case node_at f p of
        None \<Rightarrow> Inl FileNotFoundError
      | Some Dir \<Rightarrow> Inl IsADirectoryError
      | Some (Csv t) \<Rightarrow> Inr t
      | Some File \<Rightarrow> Inl ParserError)"

section \<open>The record store: class SSatDatabase\<close>

record database =
  df :: "df option"
  folder :: "path option"

definition db_csv_name :: string where "db_csv_name = ''download_db.csv''"
definition qlooks_dir :: string where "qlooks_dir = ''qlooks''"
definition images_dir :: string where "images_dir = ''images''"

definition initialized :: "database \<Rightarrow> bool" where
  "initialized d = (df d \<noteq> None)"

definition len :: "database \<Rightarrow> nat" where
  "len d = (case df d of None \<Rightarrow> 0 | Some t \<Rightarrow> length t)"

text \<open>A labelled column (a pandas Series), in row order.\<close>

type_synonym 'a series = "(string \<times> 'a) list"

definition column :: "(row \<Rightarrow> 'a) \<Rightarrow> df \<Rightarrow> 'a series" where
  "column c t = map (\<lambda>(k, r). (k, c r)) t"

text \<open>\<^verbatim>\<open>s.map(g)\<close>: \<open>g\<close> on every value in order; the first exception ends it.\<close>

fun map_series :: "('a \<Rightarrow> error + 'b) \<Rightarrow> 'a series \<Rightarrow> error + 'b series" where
  "map_series g [] = Inr []"
| "map_series g ((k, x) # s) =
     (case g x of
        Inl e \<Rightarrow> Inl e
      | Inr y \<Rightarrow> (case map_series g s of Inl e \<Rightarrow> Inl e | Inr s' \<Rightarrow> Inr ((k, y) # s')))"

text \<open>
  \<^verbatim>\<open>t[col] = s\<close>: when the two indexes are equal the values are taken in order. Otherwise
  pandas looks every label of \<open>t\<close> up in \<open>s\<close>, which must have no repeated label
  (\<^verbatim>\<open>ValueError\<close>); a label missing from \<open>s\<close> would give a missing value, which a flag
  cannot hold, and is reported as \<^verbatim>\<open>TypeError\<close> here.
\<close>

fun lookup_all :: "('a \<Rightarrow> row \<Rightarrow> row) \<Rightarrow> df \<Rightarrow> 'a series \<Rightarrow> error + df" where
  "lookup_all upd [] s = Inr []"
| "lookup_all upd ((k, r) # t) s =
     (case map_of s k of
        None \<Rightarrow> Inl TypeError
      | Some v \<Rightarrow> (case lookup_all upd t s of Inl e \<Rightarrow> Inl e | Inr t' \<Rightarrow> Inr ((k, upd v r) # t')))"

definition set_column :: "('a \<Rightarrow> row \<Rightarrow> row) \<Rightarrow> df \<Rightarrow> 'a series \<Rightarrow> error + df" where
  "set_column upd t s =
     (if map fst s = index t then Inr (map (\<lambda>((k, r), (k', v)). (k, upd v r)) (zip t s))
      else if distinct (map fst s) then lookup_all upd t s
      else Inl ValueError)"

text \<open>\<^verbatim>\<open>a / nm\<close> where \<open>a\<close> may be \<^verbatim>\<open>None\<close>: Python then raises \<^verbatim>\<open>TypeError\<close>.\<close>

definition div_path :: "path option \<Rightarrow> string \<Rightarrow> error + path" where
  "div_path a nm = (case a of None \<Rightarrow> Inl TypeError | Some p \<Rightarrow> Inr (joinpath p nm))"

definition save_db :: "database \<Rightarrow> fs \<Rightarrow> error + fs" where
  "save_db d f =
     (case df d of
        None \<Rightarrow> Inr f
      | Some t \<Rightarrow>
          (case div_path (folder d) db_csv_name of
             Inl e \<Rightarrow> Inl e
           | Inr p \<Rightarrow> to_csv f p t))"

definition images_folder :: "database \<Rightarrow> error + path option" where
  "images_folder d =
     (if initialized d
      then (case div_path (folder d) images_dir of Inl e \<Rightarrow> Inl e | Inr p \<Rightarrow> Inr (Some p))
      else Inr None)"

definition qlooks_folder :: "database \<Rightarrow> error + path option" where
  "qlooks_folder d =
     (if initialized d
      then (case div_path (folder d) qlooks_dir of Inl e \<Rightarrow> Inl e | Inr p \<Rightarrow> Inr (Some p))
      else Inr None)"

text \<open>\<^verbatim>\<open>self.images_folder / x\<close> and \<^verbatim>\<open>self.qlooks_folder / (x + '.jpeg')\<close>, per row.\<close>

definition image_target :: "database \<Rightarrow> string \<Rightarrow> error + path" where
  "image_target d x =
     (case images_folder d of Inl e \<Rightarrow> Inl e | Inr a \<Rightarrow> div_path a x)"

definition quick_look_target :: "database \<Rightarrow> string \<Rightarrow> error + path" where
  "quick_look_target d x =
     (case qlooks_folder d of Inl e \<Rightarrow> Inl e | Inr a \<Rightarrow> div_path a (x @ ''.jpeg''))"

definition images_targets :: "database \<Rightarrow> error + path series option" where
  "images_targets d =
     (case df d of
        None \<Rightarrow> Inr None
      | Some t \<Rightarrow>
          (case map_series (image_target d) (column identifier t) of
             Inl e \<Rightarrow> Inl e | Inr s \<Rightarrow> Inr (Some s)))"

definition quick_looks_targets :: "database \<Rightarrow> error + path series option" where
  "quick_looks_targets d =
     (case df d of
        None \<Rightarrow> Inr None
      | Some t \<Rightarrow>
          (case map_series (quick_look_target d) (column identifier t) of
             Inl e \<Rightarrow> Inl e | Inr s \<Rightarrow> Inr (Some s)))"

text \<open>
  \<^verbatim>\<open>check_image\<close>: both \<^verbatim>\<open>with_suffix\<close> calls and both existence tests are made before
  the results are combined.
\<close>

definition check_image :: "fs \<Rightarrow> path \<Rightarrow> error + bool" where
  "check_image f p =
     (case with_suffix p ''.zip'' of
        Inl e \<Rightarrow> Inl e
      | Inr z \<Rightarrow>
          (case with_suffix p ''.SAFE'' of
             Inl e \<Rightarrow> Inl e
           | Inr s \<Rightarrow> Inr (exists f z \<or> exists f s)))"

text \<open>
  \<^verbatim>\<open>update\<close> (the spec's reconcile). A property that returned \<^verbatim>\<open>None\<close> has no
  \<^verbatim>\<open>map\<close>: \<^verbatim>\<open>AttributeError\<close>.
\<close>

definition update :: "database \<Rightarrow> fs \<Rightarrow> error + database \<times> fs" where
  "update d f =
     (if initialized d \<and> len d > 0 then
        (case images_targets d of
           Inl e \<Rightarrow> Inl e
         | Inr None \<Rightarrow> Inl AttributeError
         | Inr (Some its) \<Rightarrow>
        (case map_series (check_image f) its of
           Inl e \<Rightarrow> Inl e
         | Inr dl \<Rightarrow>
        (case set_column (\<lambda>v r. r\<lparr>downloaded := v\<rparr>) (the (df d)) dl of
           Inl e \<Rightarrow> Inl e
         | Inr t1 \<Rightarrow>
        (let d1 = d\<lparr>df := Some t1\<rparr> in
        (case quick_looks_targets d1 of
           Inl e \<Rightarrow> Inl e
         | Inr None \<Rightarrow> Inl AttributeError
         | Inr (Some qts) \<Rightarrow>
        (case map_series (\<lambda>p. Inr (exists f p)) qts of
           Inl e \<Rightarrow> Inl e
         | Inr ql \<Rightarrow>
        (case set_column (\<lambda>v r. r\<lparr>qlook := v\<rparr>) t1 ql of
           Inl e \<Rightarrow> Inl e
         | Inr t2 \<Rightarrow>
        (let d2 = d1\<lparr>df := Some (drop_duplicated t2)\<rparr> in
        (case save_db d2 f of
           Inl e \<Rightarrow> Inl e
         | Inr f' \<Rightarrow> Inr (d2, f'))))))))))
      else Inr (d, f))"

text \<open>\<^verbatim>\<open>create\<close>: the result carries the returned flag.\<close>

definition create :: "database \<Rightarrow> string \<Rightarrow> fs \<Rightarrow> error + bool \<times> database \<times> fs" where
  "create d base_dir f =
     (let p = parse_path base_dir in
      if exists f p then Inr (False, d\<lparr>folder := None, df := None\<rparr>, f)
      else
        (case mkdir f p of
           Inl e \<Rightarrow> Inl e
         | Inr f1 \<Rightarrow>
        (case mkdir f1 (joinpath p qlooks_dir) of
           Inl e \<Rightarrow> Inl e
         | Inr f2 \<Rightarrow>
        (case mkdir f2 (joinpath p images_dir) of
           Inl e \<Rightarrow> Inl e
         | Inr f3 \<Rightarrow>
        (let d' = d\<lparr>folder := Some p, df := Some []\<rparr> in
        (case save_db d' f3 of
           Inl e \<Rightarrow> Inl e
         | Inr f4 \<Rightarrow> Inr (True, d', f4)))))))"

text \<open>
  \<^verbatim>\<open>open\<close>; \<open>csv\<close> is \<^verbatim>\<open>self.download_db_path\<close>, the folder being set. The column types of \<^verbatim>\<open>astype(..., errors='ignore')\<close> are those the record
  \<open>row\<close> already has.
\<close>

definition open_db :: "database \<Rightarrow> string \<Rightarrow> fs \<Rightarrow> error + bool \<times> database \<times> fs" where
  "open_db d base_dir f =
     (let p = parse_path base_dir;
          d0 = d\<lparr>folder := Some p\<rparr>;
          images_path = joinpath p images_dir;
          qlooks_path = joinpath p qlooks_dir;
          csv = joinpath p db_csv_name
      in if exists f csv \<and> exists f images_path \<and> exists f qlooks_path then
           (case read_csv f csv of
              Inl e \<Rightarrow> Inl e
            | Inr t \<Rightarrow>
                (case update (d0\<lparr>df := Some t\<rparr>) f of
                   Inl e \<Rightarrow> Inl e
                 | Inr (d', f') \<Rightarrow> Inr (True, d', f')))
         else Inr (False, d0\<lparr>folder := None, df := None\<rparr>, f))"

text \<open>\<^verbatim>\<open>add_data\<close> (the spec's merge).\<close>

definition add_data :: "database \<Rightarrow> df \<Rightarrow> fs \<Rightarrow> error + database \<times> fs" where
  "add_data d t f =
     (if \<not> initialized d then Inr (d, f)
      else
        (let to_add = filter (\<lambda>(k, r). k \<notin> set (index (the (df d)))) t;
             d' = d\<lparr>df := Some (the (df d) @ to_add)\<rparr>
         in (case save_db d' f of Inl e \<Rightarrow> Inl e | Inr f' \<Rightarrow> Inr (d', f'))))"

section \<open>The session controller: class SSatDownloader\<close>

text \<open>
  The state of a \<^verbatim>\<open>concurrent.futures.Future\<close> as a call finds it; \<^verbatim>\<open>submit\<close> returns a
  pending one, and the worker threads move it on between the calls.
\<close>

datatype future = Pending | Running | Finished

definition running :: "future \<Rightarrow> bool" where
  "running x = (x = Running)"

datatype pool = ThreadPoolExecutor nat

text \<open>The two attributes of the \<^verbatim>\<open>SentinelAPI\<close> object that the program writes.\<close>

record sentinel_api =
  logger_disabled :: bool
  show_progressbars :: bool

type_synonym kwargs = "(string \<times> string) list"

type_synonym report = "string list"

record downloader =
  api :: "sentinel_api option"
  database :: database
  search_df :: "df option"
  query_args :: "kwargs option"
  status :: "report option"
  executor :: "pool option"
  monitor :: "future option"
  result :: "future option"

text \<open>
  What lies outside the program: the answers of the remote service
  (\<^verbatim>\<open>api.to_dataframe(api.query(**kwargs))\<close>, \<^verbatim>\<open>api.is_online\<close>), the files a bulk download
  leaves (\<^verbatim>\<open>api.download_all\<close>), and what the tasks of the old pool have done to the session
  and the filesystem when \<^verbatim>\<open>executor.shutdown()\<close> returns.
\<close>

record service =
  api_query :: "kwargs \<Rightarrow> df"
  api_is_online :: "string \<Rightarrow> bool"
  api_download_all :: "string list \<Rightarrow> path \<Rightarrow> nat \<Rightarrow> fs \<Rightarrow> fs \<times> report"
  pool_shutdown :: "downloader \<times> fs \<Rightarrow> downloader \<times> fs"

definition check_api :: "downloader \<Rightarrow> bool" where
  "check_api d = (api d \<noteq> None)"

definition is_downloading :: "downloader \<Rightarrow> bool" where
  "is_downloading d = (case result d of None \<Rightarrow> False | Some x \<Rightarrow> running x)"

definition check_search_df :: "downloader \<Rightarrow> bool" where
  "check_search_df d = (case search_df d of None \<Rightarrow> False | Some t \<Rightarrow> t \<noteq> [])"

definition combined_df :: "downloader \<Rightarrow> df option" where
  "combined_df d =
     (let result0 = (if check_search_df d then search_df d else None);
          result1 =
            (if initialized (database d) then
               (case result0 of
                  None \<Rightarrow> df (database d)
                | Some r \<Rightarrow> Some (r @ the (df (database d))))
             else result0)
      in (case result1 of None \<Rightarrow> None | Some r \<Rightarrow> Some (drop_duplicated r)))"

text \<open>
  The properties of the controller that share a name with one of the store carry the
  prefix \<open>dl\<close>.
\<close>

definition dl_to_download :: "downloader \<Rightarrow> df option" where
  "dl_to_download d =
     (if \<not> initialized (database d) then None
      else (case combined_df d of
              None \<Rightarrow> None
            | Some c \<Rightarrow> Some (filter (\<lambda>(k, r). \<not> downloaded r) c)))"

text \<open>\<^verbatim>\<open>self.database.images_folder / (x + '.zip')\<close> and the same for the quick looks.\<close>

definition dl_image_target :: "downloader \<Rightarrow> string \<Rightarrow> error + path" where
  "dl_image_target d x =
     (case images_folder (database d) of Inl e \<Rightarrow> Inl e | Inr a \<Rightarrow> div_path a (x @ ''.zip''))"

definition dl_quick_look_target :: "downloader \<Rightarrow> string \<Rightarrow> error + path" where
  "dl_quick_look_target d x =
     (case qlooks_folder (database d) of Inl e \<Rightarrow> Inl e | Inr a \<Rightarrow> div_path a (x @ ''.jpeg''))"

definition dl_images_targets :: "downloader \<Rightarrow> error + path series option" where
  "dl_images_targets d =
     (if \<not> check_search_df d \<or> \<not> initialized (database d) then Inr None
      else
        (case combined_df d of
           None \<Rightarrow> Inl TypeError
         | Some c \<Rightarrow>
             (case map_series (dl_image_target d) (column title c) of
                Inl e \<Rightarrow> Inl e | Inr s \<Rightarrow> Inr (Some s))))"

definition dl_quick_looks_targets :: "downloader \<Rightarrow> error + path series option" where
  "dl_quick_looks_targets d =
     (if \<not> check_search_df d \<or> \<not> initialized (database d) then Inr None
      else
        (case combined_df d of
           None \<Rightarrow> Inl TypeError
         | Some c \<Rightarrow>
             (case map_series (dl_quick_look_target d) (column title c) of
                Inl e \<Rightarrow> Inl e | Inr s \<Rightarrow> Inr (Some s))))"

definition update_local_info :: "downloader \<Rightarrow> fs \<Rightarrow> error + downloader \<times> fs" where
  "update_local_info d f =
     (case update (database d) f of
        Inl e \<Rightarrow> Inl e
      | Inr (db', f') \<Rightarrow>
     (let d1 = d\<lparr>database := db'\<rparr> in
      if \<not> check_search_df d1 then Inr (d1, f')
      else if \<not> initialized (database d1) then
        Inr (d1\<lparr>search_df :=
               Some (map (\<lambda>(k, r). (k, r\<lparr>downloaded := False, qlook := False\<rparr>))
                 (the (search_df d1)))\<rparr>, f')
      else
        (case dl_images_targets d1 of
           Inl e \<Rightarrow> Inl e
         | Inr None \<Rightarrow> Inl AttributeError
         | Inr (Some its) \<Rightarrow>
        (case map_series (\<lambda>p. Inr (exists f' p)) its of
           Inl e \<Rightarrow> Inl e
         | Inr dl \<Rightarrow>
        (case set_column (\<lambda>v r. r\<lparr>downloaded := v\<rparr>) (the (search_df d1)) dl of
           Inl e \<Rightarrow> Inl e
         | Inr t1 \<Rightarrow>
        (let d2 = d1\<lparr>search_df := Some t1\<rparr> in
        (case dl_quick_looks_targets d2 of
           Inl e \<Rightarrow> Inl e
         | Inr None \<Rightarrow> Inl AttributeError
         | Inr (Some qts) \<Rightarrow>
        (case map_series (\<lambda>p. Inr (exists f' p)) qts of
           Inl e \<Rightarrow> Inl e
         | Inr ql \<Rightarrow>
        (case set_column (\<lambda>v r. r\<lparr>qlook := v\<rparr>) t1 ql of
           Inl e \<Rightarrow> Inl e
         | Inr t2 \<Rightarrow> Inr (d2\<lparr>search_df := Some t2\<rparr>, f'))))))))))"

text \<open>
  \<^verbatim>\<open>filter_results\<close>: the query string of pandas is a predicate on a labelled row here.
\<close>

definition filter_results :: "downloader \<Rightarrow> (string \<times> row \<Rightarrow> bool) option \<Rightarrow> downloader" where
  "filter_results d query =
     (if \<not> check_search_df d then d
      else (case query of
              None \<Rightarrow> d
            | Some q \<Rightarrow> d\<lparr>search_df := Some (filter q (the (search_df d)))\<rparr>))"

text \<open>
  \<^verbatim>\<open>sort_values(by='beginposition')\<close>: ascending. (Rows with the same key keep their order
  here; pandas promises no order among them.)
\<close>

definition sort_values :: "df \<Rightarrow> df" where
  "sort_values t = sort_key (\<lambda>(k, r). beginposition r) t"

text \<open>
  \<^verbatim>\<open>query\<close>. The service's answer has no column \<open>date\<close>, \<open>tile\<close>, \<open>online\<close>, \<open>downloaded\<close> or
  \<open>qlook\<close> yet; the fields of those names in its rows stand for nothing until they are
  assigned. An answer without products is a table without columns, and sorting it by
  \<open>beginposition\<close> raises \<^verbatim>\<open>KeyError\<close>.
\<close>

definition query ::
  "downloader \<Rightarrow> (string \<times> row \<Rightarrow> bool) option \<Rightarrow> bool \<Rightarrow> kwargs \<Rightarrow> service \<Rightarrow> fs
     \<Rightarrow> error + downloader \<times> fs" where
  "query d post_filter search_online kw svc f =
     (if \<not> check_api d \<or> is_downloading d then Inr (d, f)
      else if api_query svc kw = [] then Inl KeyError
      else
        (let d1 = d\<lparr>query_args := Some kw\<rparr>;
             d2 = d1\<lparr>search_df := Some (sort_values (api_query svc kw))\<rparr>;
             d3 = filter_results d2 post_filter;
             d4 = d3\<lparr>search_df :=
                    Some (map (\<lambda>(k, r). (k, r\<lparr>date := take 8 (drop 11 (title r))\<rparr>))
                      (the (search_df d3)))\<rparr>;
             d5 = d4\<lparr>search_df :=
                    Some (map (\<lambda>(k, r). (k, r\<lparr>tile := take 5 (drop 39 (title r))\<rparr>))
                      (the (search_df d4)))\<rparr>;
             d6 = d5\<lparr>search_df :=
                    Some (map (\<lambda>(k, r).
                                 (k, r\<lparr>online := (if search_online then api_is_online svc k else False)\<rparr>))
                      (the (search_df d5)))\<rparr>
         in update_local_info d6 f))"

text \<open>Writing an attribute of \<^verbatim>\<open>self.api\<close>; on \<^verbatim>\<open>None\<close> Python raises \<^verbatim>\<open>AttributeError\<close>.\<close>

definition set_api :: "(sentinel_api \<Rightarrow> sentinel_api) \<Rightarrow> downloader \<Rightarrow> error + downloader" where
  "set_api g d = (case api d of None \<Rightarrow> Inl AttributeError | Some a \<Rightarrow> Inr (d\<lparr>api := Some (g a)\<rparr>))"

text \<open>\<^verbatim>\<open>str(self.database.images_folder)\<close>, read back as a path by the service's client.\<close>

definition directory_path :: "downloader \<Rightarrow> error + path" where
  "directory_path d =
     (case images_folder (database d) of
        Inl e \<Rightarrow> Inl e
      | Inr None \<Rightarrow> Inr (parse_path ''None'')
      | Inr (Some p) \<Rightarrow> Inr p)"

text \<open>
  \<^verbatim>\<open>download_all\<close>, its two final branches first. With \<^verbatim>\<open>background\<close> the call returns
  once the two tasks are submitted; what they do later is not part of the call.
\<close>

definition download_background :: "downloader \<Rightarrow> service \<Rightarrow> fs \<Rightarrow> error + downloader \<times> fs" where
  "download_background d svc f =
     (case set_api (\<lambda>a. a\<lparr>show_progressbars := False\<rparr>) d of
        Inl e \<Rightarrow> Inl e
      | Inr d3 \<Rightarrow>
          (let (d4, f4) = (if executor d3 \<noteq> None then pool_shutdown svc (d3, f) else (d3, f))
           in (case dl_to_download d4 of
                 None \<Rightarrow> Inl AttributeError
               | Some td \<Rightarrow>
                   (case directory_path d4 of
                      Inl e \<Rightarrow> Inl e
                    | Inr dir \<Rightarrow>
                        Inr (d4\<lparr>executor := Some (ThreadPoolExecutor 2),
                                result := Some Pending,
                                monitor := Some Pending\<rparr>, f4)))))"

definition download_direct ::
  "downloader \<Rightarrow> nat \<Rightarrow> service \<Rightarrow> fs \<Rightarrow> error + downloader \<times> fs" where
  "download_direct d max_attempts svc f =
     (case directory_path d of
        Inl e \<Rightarrow> Inl e
      | Inr dir \<Rightarrow>
          (let (f5, rep) = api_download_all svc (index (the (dl_to_download d))) dir max_attempts f
           in (case update_local_info (d\<lparr>status := Some rep\<rparr>) f5 of
                 Inl e \<Rightarrow> Inl e
               | Inr (d6, f6) \<Rightarrow>
                   (case set_api (\<lambda>a. a\<lparr>logger_disabled := False\<rparr>) d6 of
                      Inl e \<Rightarrow> Inl e
                    | Inr d7 \<Rightarrow> Inr (d7, f6)))))"

definition download_all ::
  "downloader \<Rightarrow> nat \<Rightarrow> bool \<Rightarrow> service \<Rightarrow> fs \<Rightarrow> error + downloader \<times> fs" where
  "download_all d max_attempts background svc f =
     (if \<not> initialized (database d) then Inr (d, f)
      else
        (case (case search_df d of
                 None \<Rightarrow> Inr (database d, f)
               | Some s \<Rightarrow> add_data (database d) s f) of
           Inl e \<Rightarrow> Inl e
         | Inr (db1, f1) \<Rightarrow>
             (let d1 = d\<lparr>database := db1\<rparr>
              in if dl_to_download d1 = None \<or> length (the (dl_to_download d1)) = 0
                 then Inr (d1, f1)
                 else
                   (case set_api (\<lambda>a. a\<lparr>logger_disabled := True\<rparr>) d1 of
                      Inl e \<Rightarrow> Inl e
                    | Inr d2 \<Rightarrow>
                        if background then download_background d2 svc f1
                        else download_direct d2 max_attempts svc f1))))"

section \<open>Auxiliary definitions\<close>

text \<open>What \<^verbatim>\<open>update\<close> makes of one row, and of a table, for a store rooted at \<open>root\<close>.\<close>

definition reconciled :: "fs \<Rightarrow> path \<Rightarrow> row \<Rightarrow> row" where
  "reconciled f root r =
     r\<lparr>downloaded :=
          (case check_image f (joinpath (joinpath root images_dir) (identifier r)) of
             Inl e \<Rightarrow> False | Inr b \<Rightarrow> b),
       qlook := exists f (joinpath (joinpath root qlooks_dir) (identifier r @ ''.jpeg''))\<rparr>"

definition reconcile_table :: "fs \<Rightarrow> path \<Rightarrow> df \<Rightarrow> df" where
  "reconcile_table f root t = drop_duplicated (map (\<lambda>(k, r). (k, reconciled f root r)) t)"

definition ex_row :: "string \<Rightarrow> string \<Rightarrow> row" where
  "ex_row t i =
     \<lparr>title = t, identifier = i, beginposition = 0, date = [], tile = [], online = False,
      downloaded = False, qlook = False, attrs = []\<rparr>"

definition ex_fs :: fs where
  "ex_fs =
     [Path False [''db''] \<mapsto> Dir,
      Path False [''db'', ''images''] \<mapsto> Dir,
      Path False [''db'', ''qlooks''] \<mapsto> Dir,
      Path False [''db'', ''download_db.csv''] \<mapsto> Csv [(''u1'', ex_row ''A'' ''A'')],
      Path False [''db'', ''images'', ''A.zip''] \<mapsto> File]"



definition ex_db :: database where
  "ex_db = \<lparr>df = Some [(''u1'', ex_row ''A'' ''A'')], folder = Some (Path False [''db''])\<rparr>"



definition closed_db :: database where
  "closed_db = \<lparr>df = None, folder = None\<rparr>"



definition persisted :: "database \<Rightarrow> fs \<Rightarrow> bool" where
  "persisted d f =
     (case folder d of
        None \<Rightarrow> False
      | Some root \<Rightarrow>
          (case df d of
             None \<Rightarrow> False
           | Some t \<Rightarrow> read_csv f (joinpath root db_csv_name) = Inr t))"

definition ex_db_dups :: database where
  "ex_db_dups =
     \<lparr>df = Some [(''u1'', ex_row ''A'' ''A''), (''u2'', ex_row ''B'' ''B''), (''u1'', ex_row ''A2'' ''A'')],
      folder = Some (Path False [''db''])\<rparr>"

definition ex_db_rec :: database where
  "ex_db_rec =
     \<lparr>df = Some [(''u1'', (ex_row ''A'' ''A'')\<lparr>downloaded := True\<rparr>), (''u2'', ex_row ''B'' ''B'')],
      folder = Some (Path False [''db''])\<rparr>"

definition ex_fs_rec :: fs where
  "ex_fs_rec =
     ex_fs(Path False [''db'', ''download_db.csv'']
             \<mapsto> Csv [(''u1'', (ex_row ''A'' ''A'')\<lparr>downloaded := True\<rparr>), (''u2'', ex_row ''B'' ''B'')])"




definition ex_empty_db :: database where
  "ex_empty_db = \<lparr>df = Some [], folder = Some (Path False [''db''])\<rparr>"

definition ex_dup_rows :: df where
  "ex_dup_rows = [(''u1'', ex_row ''A'' ''A''), (''u1'', ex_row ''A2'' ''A2'')]"

definition ex_dup_db :: database where
  "ex_dup_db = \<lparr>df = Some ex_dup_rows, folder = Some (Path False [''db''])\<rparr>"

definition ex_dup_fs :: fs where
  "ex_dup_fs = ex_fs(Path False [''db'', ''download_db.csv''] \<mapsto> Csv ex_dup_rows)"

definition ex_rows_ab :: df where
  "ex_rows_ab = [(''a'', ex_row ''A'' ''A''), (''b'', ex_row ''B'' ''B'')]"

definition ex_rows_bc :: df where
  "ex_rows_bc = [(''b'', ex_row ''B'' ''B''), (''c'', ex_row ''C'' ''C'')]"

definition ex_rows_abc :: df where
  "ex_rows_abc = [(''a'', ex_row ''A'' ''A''), (''b'', ex_row ''B'' ''B''), (''c'', ex_row ''C'' ''C'')]"

definition ex_db_of :: "df \<Rightarrow> database" where
  "ex_db_of t = \<lparr>df = Some t, folder = Some (Path False [''db''])\<rparr>"

definition ex_fs_of :: "df \<Rightarrow> fs" where
  "ex_fs_of t = ex_fs(Path False [''db'', ''download_db.csv''] \<mapsto> Csv t)"

definition ex_new_db :: database where
  "ex_new_db = \<lparr>df = Some [], folder = Some (Path False [''new''])\<rparr>"

definition ex_new_fs :: fs where
  "ex_new_fs =
     ex_fs(Path False [''new''] \<mapsto> Dir,
           Path False [''new'', ''qlooks''] \<mapsto> Dir,
           Path False [''new'', ''images''] \<mapsto> Dir,
           Path False [''new'', ''download_db.csv''] \<mapsto> Csv [])"

text \<open>Auxiliary definitions and example sessions for the controller.\<close>

definition search_rows :: "downloader \<Rightarrow> df" where
  "search_rows d = (case search_df d of None \<Rightarrow> [] | Some s \<Rightarrow> s)"

definition core :: "row \<Rightarrow> row" where
  "core r = r\<lparr>downloaded := False, qlook := False\<rparr>"

definition annotated :: "bool \<Rightarrow> service \<Rightarrow> string \<times> row \<Rightarrow> string \<times> row" where
  "annotated search_online svc =
     (\<lambda>(k, r). (k, r\<lparr>date := take 8 (drop 11 (title r)), tile := take 5 (drop 39 (title r)),
                      online := (if search_online then api_is_online svc k else False)\<rparr>))"

definition filtered :: "(string \<times> row \<Rightarrow> bool) option \<Rightarrow> df \<Rightarrow> df" where
  "filtered post_filter t = (case post_filter of None \<Rightarrow> t | Some q \<Rightarrow> filter q t)"

definition ex_api :: sentinel_api where
  "ex_api = \<lparr>logger_disabled = False, show_progressbars = True\<rparr>"

definition ex_session :: "database \<Rightarrow> df option \<Rightarrow> future option \<Rightarrow> downloader" where
  "ex_session db s r =
     \<lparr>api = Some ex_api, database = db, search_df = s, query_args = None, status = None,
      executor = (if r = None then None else Some (ThreadPoolExecutor 2)),
      monitor = r, result = r\<rparr>"

definition ex_svc :: "df \<Rightarrow> service" where
  "ex_svc answer =
     \<lparr>api_query = (\<lambda>kw. answer),
      api_is_online = (\<lambda>k. False),
      api_download_all = (\<lambda>ids dir n f. (f(joinpath dir ''A.zip'' \<mapsto> File), ids)),
      pool_shutdown = (\<lambda>(d, f). (d\<lparr>monitor := Some Finished, result := Some Finished\<rparr>, f))\<rparr>"

definition ex_fs_empty :: fs where
  "ex_fs_empty =
     [Path False [''db''] \<mapsto> Dir,
      Path False [''db'', ''images''] \<mapsto> Dir,
      Path False [''db'', ''qlooks''] \<mapsto> Dir,
      Path False [''db'', ''download_db.csv''] \<mapsto> Csv []]"

definition ex_fs_safe :: fs where
  "ex_fs_safe =
     [Path False [''db''] \<mapsto> Dir,
      Path False [''db'', ''images''] \<mapsto> Dir,
      Path False [''db'', ''qlooks''] \<mapsto> Dir,
      Path False [''db'', ''download_db.csv''] \<mapsto> Csv [(''u1'', ex_row ''A'' ''A'')],
      Path False [''db'', ''images'', ''A.SAFE''] \<mapsto> Dir]"

definition ex_safe_session :: downloader where
  "ex_safe_session =
     ex_session (ex_db_of [(''u1'', ex_row ''A'' ''A'')]) (Some [(''u1'', ex_row ''A'' ''A'')]) None"

definition ex_safe_session_after :: downloader where
  "ex_safe_session_after =
     ex_session (ex_db_of [(''u1'', (ex_row ''A'' ''A'')\<lparr>downloaded := True\<rparr>)])
       (Some [(''u1'', ex_row ''A'' ''A'')]) None"

definition ex_fs_safe_after :: fs where
  "ex_fs_safe_after =
     ex_fs_safe(Path False [''db'', ''download_db.csv'']
                  \<mapsto> Csv [(''u1'', (ex_row ''A'' ''A'')\<lparr>downloaded := True\<rparr>)])"

definition ex_busy :: downloader where
  "ex_busy = ex_session ex_empty_db (Some [(''u1'', ex_row ''A'' ''A'')]) (Some Running)"

definition ex_busy_after :: downloader where
  "ex_busy_after =
     (ex_session (ex_db_of [(''u1'', (ex_row ''A'' ''A'')\<lparr>downloaded := True\<rparr>)])
        (Some [(''u1'', (ex_row ''A'' ''A'')\<lparr>downloaded := True\<rparr>)]) (Some Running))
     \<lparr>status := Some [''u1'']\<rparr>"

definition ex_busy_fs :: fs where
  "ex_busy_fs =
     ex_fs_empty(Path False [''db'', ''images'', ''A.zip''] \<mapsto> File,
       Path False [''db'', ''download_db.csv'']
         \<mapsto> Csv [(''u1'', (ex_row ''A'' ''A'')\<lparr>downloaded := True\<rparr>)])"

definition ex_mixed :: downloader where
  "ex_mixed =
     ex_session
       (ex_db_of [(''u1'', (ex_row ''A'' ''A'')\<lparr>downloaded := True\<rparr>), (''u2'', ex_row ''B'' ''B'')])
       (Some [(''u1'', ex_row ''A2'' ''A''), (''u3'', ex_row ''C'' ''C'')]) None"

definition ex_answer :: df where
  "ex_answer =
     [(''p2'', (ex_row ''P2'' ''P2'')\<lparr>beginposition := 5\<rparr>),
      (''p1'', (ex_row ''P1'' ''P1'')\<lparr>beginposition := 3\<rparr>),
      (''p3'', (ex_row ''P3'' ''P3'')\<lparr>beginposition := 4\<rparr>)]"

definition ex_idle :: downloader where
  "ex_idle = ex_session closed_db None None"

definition ex_idle_after :: downloader where
  "ex_idle_after =
     (ex_session closed_db
        (Some [(''p1'', (ex_row ''P1'' ''P1'')\<lparr>beginposition := 3\<rparr>),
               (''p3'', (ex_row ''P3'' ''P3'')\<lparr>beginposition := 4\<rparr>),
               (''p2'', (ex_row ''P2'' ''P2'')\<lparr>beginposition := 5\<rparr>)]) None)
     \<lparr>query_args := Some []\<rparr>"

section \<open>Lemmas\<close>

lemma map_series_total:
  "map_series (\<lambda>x. Inr (g x)) s = Inr (map (\<lambda>(k, x). (k, g x)) s)"
  by (induction s) auto

lemma map_series_Inr:
  "map_series g s = Inr s' \<Longrightarrow>
     (\<forall>(k, x) \<in> set s. \<exists>y. g x = Inr y) \<and> s' = map (\<lambda>(k, x). (k, projr (g x))) s"
  by (induction s arbitrary: s') (auto split: sum.splits)

lemma map_series_ok:
  "\<forall>(k, x) \<in> set s. \<exists>y. g x = Inr y \<Longrightarrow>
     map_series g s = Inr (map (\<lambda>(k, x). (k, projr (g x))) s)"
  by (induction s) (auto split: sum.splits)

lemma set_column_same_index:
  "map fst s = index t \<Longrightarrow>
     set_column upd t s = Inr (map (\<lambda>((k, r), (k', v)). (k, upd v r)) (zip t s))"
  by (simp add: set_column_def)

lemma with_suffix_error: "with_suffix p sfx = Inl e \<Longrightarrow> e = ValueError"
  by (auto simp: with_suffix_def Let_def split: if_splits)

lemma check_image_error: "check_image f p = Inl e \<Longrightarrow> e = ValueError"
  by (auto simp: check_image_def split: sum.splits dest: with_suffix_error)

lemma image_target_eq:
  "df d = Some t \<Longrightarrow> folder d = Some root \<Longrightarrow>
     image_target d = (\<lambda>x. Inr (joinpath (joinpath root images_dir) x))"
  by (rule ext) (simp add: image_target_def images_folder_def initialized_def div_path_def)

lemma quick_look_target_eq:
  "df d = Some t \<Longrightarrow> folder d = Some root \<Longrightarrow>
     quick_look_target d = (\<lambda>x. Inr (joinpath (joinpath root qlooks_dir) (x @ ''.jpeg'')))"
  by (rule ext) (simp add: quick_look_target_def qlooks_folder_def initialized_def div_path_def)

lemma map_column: "map (\<lambda>(k, x). (k, g x)) (column c t) = map (\<lambda>(k, r). (k, g (c r))) t"
  by (induction t) (auto simp: column_def)

lemma images_targets_eq:
  "df d = Some t \<Longrightarrow> folder d = Some root \<Longrightarrow>
     images_targets d =
       Inr (Some (map (\<lambda>(k, r). (k, joinpath (joinpath root images_dir) (identifier r))) t))"
  by (simp add: images_targets_def image_target_eq map_series_total map_column)

lemma quick_looks_targets_eq:
  "df d = Some t \<Longrightarrow> folder d = Some root \<Longrightarrow>
     quick_looks_targets d =
       Inr (Some (map (\<lambda>(k, r). (k, joinpath (joinpath root qlooks_dir) (identifier r @ ''.jpeg''))) t))"
  by (simp add: quick_looks_targets_def quick_look_target_eq map_series_total map_column)

lemma assign_in_order:
  "map (\<lambda>((k, r), (k', v)). (k, upd v r)) (zip t (map (\<lambda>(k, r). (k, g r)) t)) =
     map (\<lambda>(k, r). (k, upd (g r) r)) t"
  by (induction t) auto

lemma images_targets_no_folder:
  "df d = Some t \<Longrightarrow> t \<noteq> [] \<Longrightarrow> folder d = None \<Longrightarrow> images_targets d = Inl TypeError"
  by (cases t) (auto simp: images_targets_def image_target_def images_folder_def initialized_def
      div_path_def column_def)

lemma update_no_folder:
  "df d = Some t \<Longrightarrow> t \<noteq> [] \<Longrightarrow> folder d = None \<Longrightarrow> update d f = Inl TypeError"
  by (simp add: update_def initialized_def len_def images_targets_no_folder)

lemma update_ok:
  assumes "df d = Some t" "t \<noteq> []" "folder d = Some root"
    and ok: "\<forall>(k, r) \<in> set t. \<exists>b. check_image f (joinpath (joinpath root images_dir) (identifier r)) = Inr b"
  shows "update d f =
     (case to_csv f (joinpath root db_csv_name) (reconcile_table f root t) of
        Inl e \<Rightarrow> Inl e
      | Inr f' \<Rightarrow> Inr (d\<lparr>df := Some (reconcile_table f root t)\<rparr>, f'))"
proof -
  let ?its = "map (\<lambda>(k, r). (k, joinpath (joinpath root images_dir) (identifier r))) t"
  have ok': "\<forall>(k, x) \<in> set ?its. \<exists>y. check_image f x = Inr y"
    using ok by auto
  let ?dl = "map (\<lambda>(k, x). (k, projr (check_image f x))) ?its"
  have dl: "map_series (check_image f) ?its = Inr ?dl"
    by (rule map_series_ok [OF ok'])
  let ?t1 = "map (\<lambda>((k, r), (k', v)). (k, r\<lparr>downloaded := v\<rparr>)) (zip t ?dl)"
  have t1: "set_column (\<lambda>v r. r\<lparr>downloaded := v\<rparr>) t ?dl = Inr ?t1"
    by (rule set_column_same_index) (simp add: index_def comp_def case_prod_unfold)
  have dl_eq: "?dl = map (\<lambda>(k, r). (k, projr (check_image f (joinpath (joinpath root images_dir) (identifier r))))) t"
    by (induction t) auto
  have t1_eq: "?t1 = map (\<lambda>(k, r). (k, r\<lparr>downloaded := projr (check_image f (joinpath (joinpath root images_dir) (identifier r)))\<rparr>)) t"
    unfolding dl_eq by (rule assign_in_order)
  let ?d1 = "d\<lparr>df := Some ?t1\<rparr>"
  let ?qts = "map (\<lambda>(k, r). (k, joinpath (joinpath root qlooks_dir) (identifier r @ ''.jpeg''))) ?t1"
  have qts: "quick_looks_targets ?d1 = Inr (Some ?qts)"
    by (rule quick_looks_targets_eq) (simp_all add: assms)
  let ?ql = "map (\<lambda>(k, x). (k, exists f x)) ?qts"
  have ql: "map_series (\<lambda>p. Inr (exists f p)) ?qts = Inr ?ql"
    by (rule map_series_total)
  let ?t2 = "map (\<lambda>((k, r), (k', v)). (k, r\<lparr>qlook := v\<rparr>)) (zip ?t1 ?ql)"
  have t2: "set_column (\<lambda>v r. r\<lparr>qlook := v\<rparr>) ?t1 ?ql = Inr ?t2"
    by (rule set_column_same_index) (simp add: index_def comp_def case_prod_unfold)
  have ql_eq: "?ql = map (\<lambda>(k, r). (k, exists f (joinpath (joinpath root qlooks_dir) (identifier r @ ''.jpeg'')))) ?t1"
    by (simp add: comp_def case_prod_unfold)
  have t2_eq1: "?t2 = map (\<lambda>(k, r). (k, r\<lparr>qlook := exists f (joinpath (joinpath root qlooks_dir) (identifier r @ ''.jpeg''))\<rparr>)) ?t1"
    unfolding ql_eq by (rule assign_in_order)
  have "map (\<lambda>(k, r). (k, r\<lparr>qlook := exists f (joinpath (joinpath root qlooks_dir) (identifier r @ ''.jpeg''))\<rparr>)) ?t1
      = map (\<lambda>(k, r). (k, reconciled f root r)) t"
    using ok by (subst t1_eq) (auto simp: reconciled_def)
  with t2_eq1 have t2_eq: "?t2 = map (\<lambda>(k, r). (k, reconciled f root r)) t"
    by (rule trans)
  have "initialized d \<and> len d > 0"
    using assms by (simp add: initialized_def len_def)
  then show ?thesis
    unfolding update_def
    apply (simp only: if_True images_targets_eq [OF assms(1) assms(3)] sum.case option.case
        assms(1) option.sel dl t1 Let_def qts ql t2)
    apply (simp add: save_db_def div_path_def assms(3) reconcile_table_def t2_eq [symmetric]
        split: sum.splits)
    done
qed

lemma update_fail:
  assumes "df d = Some t" "t \<noteq> []" "folder d = Some root"
    and bad: "\<not> (\<forall>(k, r) \<in> set t. \<exists>b. check_image f (joinpath (joinpath root images_dir) (identifier r)) = Inr b)"
  shows "\<exists>e. update d f = Inl e"
proof -
  let ?its = "map (\<lambda>(k, r). (k, joinpath (joinpath root images_dir) (identifier r))) t"
  have "\<not> (\<forall>(k, x) \<in> set ?its. \<exists>y. check_image f x = Inr y)"
    using bad by (fastforce simp: case_prod_unfold)
  then have "\<forall>s'. map_series (check_image f) ?its \<noteq> Inr s'"
    using map_series_Inr [of "check_image f" ?its] by blast
  then obtain e where "map_series (check_image f) ?its = Inl e"
    by (cases "map_series (check_image f) ?its") auto
  moreover have "initialized d \<and> len d > 0"
    using assms by (simp add: initialized_def len_def)
  ultimately show ?thesis
    by (simp add: update_def images_targets_eq [OF assms(1) assms(3)])
qed

lemma update_Inr:
  assumes "df d = Some t" "t \<noteq> []" "update d f = Inr (d', f')"
  shows "\<exists>root. folder d = Some root
      \<and> (\<forall>(k, r) \<in> set t. \<exists>b. check_image f (joinpath (joinpath root images_dir) (identifier r)) = Inr b)
      \<and> d' = d\<lparr>df := Some (reconcile_table f root t)\<rparr>
      \<and> to_csv f (joinpath root db_csv_name) (reconcile_table f root t) = Inr f'"
proof (cases "folder d")
  case None
  with assms show ?thesis by (simp add: update_no_folder)
next
  case (Some root)
  have ok: "\<forall>(k, r) \<in> set t. \<exists>b. check_image f (joinpath (joinpath root images_dir) (identifier r)) = Inr b"
    using update_fail [OF assms(1,2) Some, of f] assms(3) by auto
  show ?thesis
    using assms(3) Some ok unfolding update_ok [OF assms(1,2) Some ok]
    by (auto split: sum.splits)
qed

subsection \<open>Dropping repeated labels\<close>

lemma index_drop_duplicated_from:
  "set (index (drop_duplicated_from seen t)) = set (index t) - set seen"
  by (induction seen t rule: drop_duplicated_from.induct) (auto simp: index_def)

lemma distinct_drop_duplicated_from: "distinct (index (drop_duplicated_from seen t))"
proof (induction seen t rule: drop_duplicated_from.induct)
  case (2 seen k r t)
  then show ?case
    using index_drop_duplicated_from [of "k # seen" t] by (auto simp: index_def)
qed (simp add: index_def)

lemma drop_duplicated_from_id:
  "distinct (index t) \<Longrightarrow> set (index t) \<inter> set seen = {} \<Longrightarrow> drop_duplicated_from seen t = t"
  by (induction seen t rule: drop_duplicated_from.induct) (auto simp: index_def)

lemma map_of_drop_duplicated_from:
  "map_of (drop_duplicated_from seen t) k = (if k \<in> set seen then None else map_of t k)"
  by (induction seen t arbitrary: k rule: drop_duplicated_from.induct) auto

lemma set_drop_duplicated_from: "set (drop_duplicated_from seen t) \<subseteq> set t"
  by (induction seen t rule: drop_duplicated_from.induct) auto

lemma drop_duplicated_from_Nil: "drop_duplicated_from seen t = [] \<longleftrightarrow> set (index t) \<subseteq> set seen"
  by (induction seen t rule: drop_duplicated_from.induct) (auto simp: index_def)

lemma distinct_drop_duplicated: "distinct (index (drop_duplicated t))"
  by (simp add: drop_duplicated_def distinct_drop_duplicated_from)

lemma index_drop_duplicated: "set (index (drop_duplicated t)) = set (index t)"
  by (simp add: drop_duplicated_def index_drop_duplicated_from)

lemma drop_duplicated_id: "distinct (index t) \<Longrightarrow> drop_duplicated t = t"
  by (simp add: drop_duplicated_def drop_duplicated_from_id)

lemma map_of_drop_duplicated: "map_of (drop_duplicated t) = map_of t"
  by (rule ext) (simp add: drop_duplicated_def map_of_drop_duplicated_from)

lemma set_drop_duplicated: "set (drop_duplicated t) \<subseteq> set t"
  by (simp add: drop_duplicated_def set_drop_duplicated_from)

lemma drop_duplicated_Nil: "drop_duplicated t = [] \<longleftrightarrow> t = []"
  by (simp add: drop_duplicated_def drop_duplicated_from_Nil index_def)

lemma parse_names:
  "parse_path db_csv_name = Path False [''download_db.csv'']"
  "parse_path images_dir = Path False [''images'']"
  "parse_path qlooks_dir = Path False [''qlooks'']"
  by (simp_all add: parse_path_def db_csv_name_def images_dir_def qlooks_dir_def)

lemma joinpath_names:
  "joinpath p db_csv_name = Path (anchored p) (parts p @ [''download_db.csv''])"
  "joinpath p images_dir = Path (anchored p) (parts p @ [''images''])"
  "joinpath p qlooks_dir = Path (anchored p) (parts p @ [''qlooks''])"
  by (simp_all add: joinpath_def parse_names)


text \<open>The definitions that evaluating the store's operations on a concrete input unfolds.\<close>

lemmas eval_defs = open_db_def update_def images_targets_def quick_looks_targets_def
  image_target_def quick_look_target_def images_folder_def qlooks_folder_def div_path_def
  initialized_def len_def column_def set_column_def index_def check_image_def with_suffix_def
  name_of_def suffix_of_def drop_duplicated_def save_db_def to_csv_def parent_def joinpath_def
  parse_path_def exists_def node_at_def read_csv_def Let_def db_csv_name_def images_dir_def
  qlooks_dir_def create_def add_data_def mkdir_def

lemma split_sep_nonempty: "split_sep s \<noteq> []"
  by (induction s) (auto split: list.splits)

lemma split_sep_append:
  "CHR ''/'' \<notin> set ys \<Longrightarrow>
     split_sep (xs @ ys) = butlast (split_sep xs) @ [last (split_sep xs) @ ys]"
proof (induction xs)
  case Nil
  then show ?case by (induction ys) (auto split: list.splits)
next
  case (Cons c xs)
  then show ?case
    using split_sep_nonempty [of xs] by (auto split: list.splits)
qed



lemma parts_parse_jpeg:
  "\<exists>ps w. parts (parse_path (x @ ''.jpeg'')) = ps @ [w @ ''.jpeg'']"
proof -
  have "split_sep (x @ ''.jpeg'') = butlast (split_sep x) @ [last (split_sep x) @ ''.jpeg'']"
    by (rule split_sep_append) simp
  then show ?thesis
    by (simp add: parse_path_def)
qed

lemma joinpath_jpeg:
  "\<exists>ps w. parts (joinpath q (x @ ''.jpeg'')) = ps @ [w @ ''.jpeg'']"
proof -
  obtain ps w where "parts (parse_path (x @ ''.jpeg'')) = ps @ [w @ ''.jpeg'']"
    using parts_parse_jpeg by blast
  then show ?thesis
    by (auto simp: joinpath_def Let_def intro: exI [of _ "parts q @ ps"])
qed

lemma with_suffix_parts:
  "with_suffix p sfx = Inr z \<Longrightarrow> \<exists>ps w. parts z = ps @ [w @ sfx]"
  by (auto simp: with_suffix_def Let_def split: if_splits)

lemma with_suffix_fs: "with_suffix p sfx = Inr z \<Longrightarrow> anchored z = anchored p"
  by (auto simp: with_suffix_def Let_def split: if_splits)

lemma csv_path_parts: "parts (joinpath root db_csv_name) = parts root @ [''download_db.csv'']"
  by (simp add: joinpath_names)

lemma not_csv_jpeg: "joinpath q (x @ ''.jpeg'') \<noteq> joinpath root db_csv_name"
proof
  assume eq: "joinpath q (x @ ''.jpeg'') = joinpath root db_csv_name"
  obtain ps w where "parts (joinpath q (x @ ''.jpeg'')) = ps @ [w @ ''.jpeg'']"
    using joinpath_jpeg by blast
  with eq have "ps @ [w @ ''.jpeg''] = parts root @ [''download_db.csv'']"
    by (simp add: csv_path_parts)
  then have "w @ ''.jpeg'' = ''download_db.csv''" by simp
  then have "last (w @ ''.jpeg'') = last ''download_db.csv''" by simp
  then show False by simp
qed

lemma not_csv_zip:
  assumes "with_suffix p ''.zip'' = Inr z" shows "z \<noteq> joinpath root db_csv_name"
proof
  assume eq: "z = joinpath root db_csv_name"
  obtain ps w where "parts z = ps @ [w @ ''.zip'']"
    using with_suffix_parts [OF assms] by blast
  with eq have "w @ ''.zip'' = ''download_db.csv''" by (simp add: csv_path_parts)
  then have "last (w @ ''.zip'') = last ''download_db.csv''" by simp
  then show False by simp
qed

lemma not_csv_safe:
  assumes "with_suffix p ''.SAFE'' = Inr z" shows "z \<noteq> joinpath root db_csv_name"
proof
  assume eq: "z = joinpath root db_csv_name"
  obtain ps w where "parts z = ps @ [w @ ''.SAFE'']"
    using with_suffix_parts [OF assms] by blast
  with eq have "w @ ''.SAFE'' = ''download_db.csv''" by (simp add: csv_path_parts)
  then have "last (w @ ''.SAFE'') = last ''download_db.csv''" by simp
  then show False by simp
qed

lemma exists_upd_other: "p \<noteq> q \<Longrightarrow> exists (f(q \<mapsto> v)) p = exists f p"
  by (simp add: exists_def node_at_def)

lemma check_image_csv:
  "check_image (f(joinpath root db_csv_name \<mapsto> v)) p = check_image f p"
  by (auto simp: check_image_def exists_upd_other not_csv_zip not_csv_safe split: sum.splits)

lemma reconciled_csv:
  "reconciled (f(joinpath root db_csv_name \<mapsto> v)) root' r = reconciled f root' r"
  by (simp add: reconciled_def check_image_csv exists_upd_other not_csv_jpeg)

lemma reconciled_idem: "reconciled f root (reconciled f root r) = reconciled f root r"
  by (simp add: reconciled_def)

lemma identifier_reconciled: "identifier (reconciled f root r) = identifier r"
  by (simp add: reconciled_def)

lemma to_csv_Inr:
  "to_csv f p t = Inr f' \<Longrightarrow>
     f' = f(p \<mapsto> Csv t) \<and> node_at f (parent p) = Some Dir \<and> node_at f p \<noteq> Some Dir"
  by (auto simp: to_csv_def split: option.splits node.splits if_splits)

lemma to_csv_again:
  assumes "to_csv f (joinpath root db_csv_name) t = Inr f'"
  shows "to_csv f' (joinpath root db_csv_name) t = Inr f'"
proof -
  let ?p = "joinpath root db_csv_name"
  from to_csv_Inr [OF assms] have f': "f' = f(?p \<mapsto> Csv t)"
    and par: "node_at f (parent ?p) = Some Dir" by auto
  have "parts (parent ?p) \<noteq> parts ?p" by (simp add: parent_def csv_path_parts)
  then have ne: "parent ?p \<noteq> ?p" by auto
  have "node_at f' (parent ?p) = Some Dir"
    using par ne by (auto simp: f' node_at_def)
  moreover have "node_at f' ?p = Some (Csv t)"
    by (simp add: f' node_at_def csv_path_parts)
  moreover have "f'(?p \<mapsto> Csv t) = f'" by (simp add: f')
  ultimately show ?thesis by (simp add: to_csv_def)
qed

lemma reconcile_table_Nil: "reconcile_table f root t = [] \<longleftrightarrow> t = []"
  by (simp add: reconcile_table_def drop_duplicated_Nil)

lemma reconcile_table_rows:
  "(k, r) \<in> set (reconcile_table f root t) \<Longrightarrow> \<exists>r0. (k, r0) \<in> set t \<and> r = reconciled f root r0"
  using set_drop_duplicated [of "map (\<lambda>(k, r). (k, reconciled f root r)) t"]
  by (auto simp: reconcile_table_def)

lemma reconcile_table_again:
  "reconcile_table (f(joinpath root db_csv_name \<mapsto> v)) root (reconcile_table f root t)
     = reconcile_table f root t"
proof -
  let ?T = "reconcile_table f root t"
  have "map (\<lambda>(k, r). (k, reconciled (f(joinpath root db_csv_name \<mapsto> v)) root r)) ?T = ?T"
    by (rule map_idI) (auto dest!: reconcile_table_rows simp: reconciled_csv reconciled_idem)
  moreover have "distinct (index ?T)"
    by (simp add: reconcile_table_def distinct_drop_duplicated)
  ultimately show ?thesis
    by (simp add: reconcile_table_def [of "f(joinpath root db_csv_name \<mapsto> v)"] drop_duplicated_id)
qed

lemma suffix_of_no_dot: "suffix_of s = [] \<Longrightarrow> take (length s - length (suffix_of s)) s = s"
  by simp







lemma ex_update_dups: "update ex_db_dups ex_fs = Inr (ex_db_rec, ex_fs_rec)"
  by (simp add: eval_defs ex_db_dups_def ex_db_rec_def ex_fs_rec_def ex_fs_def ex_row_def)

lemma csv_after_write:
  assumes "to_csv f (joinpath root db_csv_name) t = Inr f'"
  shows "read_csv f' (joinpath root db_csv_name) = Inr t"
  using to_csv_Inr [OF assms] by (simp add: read_csv_def node_at_def csv_path_parts)

lemma save_db_persisted:
  assumes "save_db d f = Inr f'" "df d \<noteq> None"
  shows "persisted d f'"
  using assms
  by (auto simp: save_db_def persisted_def div_path_def csv_after_write
      split: option.splits sum.splits)

lemma add_data_Inr:
  assumes "df d = Some t" "add_data d r f = Inr (d', f')"
  shows "d' = d\<lparr>df := Some (t @ filter (\<lambda>(k, x). k \<notin> set (index t)) r)\<rparr> \<and> save_db d' f = Inr f'"
  using assms by (auto simp: add_data_def initialized_def Let_def split: sum.splits)

lemma create_Inr:
  assumes "create d base_dir f = Inr (True, d', f')"
  shows "d' = d\<lparr>folder := Some (parse_path base_dir), df := Some []\<rparr> \<and> (\<exists>f3. save_db d' f3 = Inr f')"
  using assms by (auto simp: create_def Let_def split: if_splits sum.splits)

lemma index_filter: "index (filter (\<lambda>(k, x). P k) r) = filter P (index r)"
  by (induction r) (auto simp: index_def)

lemma distinct_merge:
  assumes "distinct (index t)" "distinct (index r)"
  shows "distinct (index (t @ filter (\<lambda>(k, x). k \<notin> set (index t)) r))"
proof -
  have "index (t @ filter (\<lambda>(k, x). k \<notin> set (index t)) r)
      = index t @ filter (\<lambda>k. k \<notin> set (index t)) (index r)"
    using index_filter [of "\<lambda>k. k \<notin> set (index t)" r] by (simp add: index_def)
  with assms show ?thesis by auto
qed

lemma index_merge:
  "set (index (t @ filter (\<lambda>(k, x). k \<notin> set (index t)) r)) = set (index t) \<union> set (index r)"
  using index_filter [of "\<lambda>k. k \<notin> set (index t)" r] by (auto simp: index_def)

lemma count_list_distinct: "distinct xs \<Longrightarrow> count_list xs k = (if k \<in> set xs then 1 else 0)"
  by (induction xs) auto

lemma ex_add_dup: "add_data ex_empty_db ex_dup_rows ex_fs = Inr (ex_dup_db, ex_dup_fs)"
  by (simp add: eval_defs ex_empty_db_def ex_dup_rows_def ex_dup_db_def ex_dup_fs_def ex_fs_def)

lemma ex_create_new: "create closed_db ''new'' ex_fs = Inr (True, ex_new_db, ex_new_fs)"
  by (simp add: eval_defs closed_db_def ex_new_db_def ex_new_fs_def ex_fs_def)

subsection \<open>The session controller\<close>

lemma combined_df_initialized:
  assumes "df (database d) = Some t"
  shows "combined_df d = Some (drop_duplicated (search_rows d @ t))"
  using assms
  by (auto simp: combined_df_def check_search_df_def initialized_def search_rows_def Let_def
      split: option.splits)

lemma dl_to_download_initialized:
  assumes "df (database d) = Some t"
  shows "dl_to_download d = Some (filter (\<lambda>(k, r). \<not> downloaded r) (drop_duplicated (search_rows d @ t)))"
  using assms by (simp add: dl_to_download_def initialized_def combined_df_initialized)

lemma set_distinct_table:
  assumes "distinct (index t)"
  shows "set t = {(k, r). map_of t k = Some r}"
  using assms by (auto simp: index_def)

lemma distinct_index_filter: "distinct (index t) \<Longrightarrow> distinct (index (filter P t))"
  by (simp add: index_def distinct_map_filter)

lemma lookup_all_frame:
  assumes "\<forall>v r. g (upd v r) = g r"
  shows "lookup_all upd t s = Inr t' \<Longrightarrow>
     map (\<lambda>(k, r). (k, g r)) t' = map (\<lambda>(k, r). (k, g r)) t"
proof (induction t arbitrary: t')
  case Nil
  then show ?case by simp
next
  case (Cons a t)
  then show ?case
    using assms by (cases a) (auto split: option.splits sum.splits)
qed

lemma in_order_frame:
  assumes "\<forall>v r. g (upd v r) = g r"
  shows "length s = length t \<Longrightarrow>
     map (\<lambda>(k, r). (k, g r)) (map (\<lambda>((k, r), (k', v)). (k, upd v r)) (zip t s))
       = map (\<lambda>(k, r). (k, g r)) t"
proof (induction t arbitrary: s)
  case Nil
  then show ?case by simp
next
  case (Cons a t)
  then show ?case
    using assms by (cases s; cases a) auto
qed

lemma set_column_frame:
  assumes "set_column upd t s = Inr t'" "\<forall>v r. g (upd v r) = g r"
  shows "map (\<lambda>(k, r). (k, g r)) t' = map (\<lambda>(k, r). (k, g r)) t"
proof (cases "map fst s = index t")
  case True
  then have "length (map fst s) = length (index t)" by simp
  then have len: "length s = length t" by (simp add: index_def)
  from assms(1) True have t': "t' = map (\<lambda>((k, r), (k', v)). (k, upd v r)) (zip t s)"
    by (simp add: set_column_def)
  show ?thesis
    unfolding t' using assms(2) len by (rule in_order_frame)
next
  case False
  with assms(1) have "lookup_all upd t s = Inr t'"
    by (simp add: set_column_def split: if_splits)
  with assms(2) show ?thesis by (rule lookup_all_frame)
qed

lemma update_local_info_frame:
  assumes "update_local_info d f = Inr (d', f')" "search_df d = Some s"
  shows "\<exists>s'. search_df d' = Some s' \<and> map (\<lambda>(k, r). (k, core r)) s' = map (\<lambda>(k, r). (k, core r)) s"
proof -
  obtain db1 f1 where u: "update (database d) f = Inr (db1, f1)"
    using assms(1) by (auto simp: update_local_info_def split: sum.splits)
  let ?d1 = "d\<lparr>database := db1\<rparr>"
  show ?thesis
  proof (cases "check_search_df ?d1")
    case False
    with assms u show ?thesis by (auto simp: update_local_info_def)
  next
    case True
    note cs = this
    show ?thesis
    proof (cases "initialized db1")
      case False
      with assms u cs have "search_df d' = Some (map (\<lambda>(k, r). (k, r\<lparr>downloaded := False, qlook := False\<rparr>)) s)"
        by (auto simp: update_local_info_def)
      then show ?thesis by (simp add: core_def comp_def case_prod_unfold)
    next
      case True
      with assms u cs obtain dl ql t1 t2 where
        t1: "set_column (\<lambda>v r. r\<lparr>downloaded := v\<rparr>) s dl = Inr t1"
        and t2: "set_column (\<lambda>v r. r\<lparr>qlook := v\<rparr>) t1 ql = Inr t2"
        and d': "search_df d' = Some t2"
        by (auto simp: update_local_info_def Let_def split: sum.splits option.splits)
      have "map (\<lambda>(k, r). (k, core r)) t2 = map (\<lambda>(k, r). (k, core r)) t1"
        by (rule set_column_frame [OF t2]) (simp add: core_def)
      also have "\<dots> = map (\<lambda>(k, r). (k, core r)) s"
        by (rule set_column_frame [OF t1]) (simp add: core_def)
      finally show ?thesis using d' by simp
    qed
  qed
qed

lemma beginposition_core: "beginposition (core r) = beginposition r"
  by (simp add: core_def)

lemma keys_of_core:
  assumes "map (\<lambda>(k, r). (k, core r)) s' = map (\<lambda>(k, r). (k, core r)) s"
  shows "map (\<lambda>(k, r). beginposition r) s' = map (\<lambda>(k, r). beginposition r) s"
proof -
  have "map (\<lambda>(k, r). beginposition r) s'
      = map (\<lambda>(k, r). beginposition r) (map (\<lambda>(k, r). (k, core r)) s')"
    by (simp add: comp_def case_prod_unfold beginposition_core)
  also have "\<dots> = map (\<lambda>(k, r). beginposition r) (map (\<lambda>(k, r). (k, core r)) s)"
    by (simp only: assms)
  also have "\<dots> = map (\<lambda>(k, r). beginposition r) s"
    by (simp add: comp_def case_prod_unfold beginposition_core)
  finally show ?thesis .
qed

lemma index_of_core:
  assumes "map (\<lambda>(k, r). (k, core r)) s' = map (\<lambda>(k, r). (k, core r)) s"
  shows "index s' = index s"
proof -
  have "index s' = map fst (map (\<lambda>(k, r). (k, core r)) s')"
    by (simp add: index_def comp_def case_prod_unfold)
  also have "\<dots> = map fst (map (\<lambda>(k, r). (k, core r)) s)"
    by (simp only: assms)
  also have "\<dots> = index s"
    by (simp add: index_def comp_def case_prod_unfold)
  finally show ?thesis .
qed

lemma sorted_sort_values: "sorted (map (\<lambda>(k, r). beginposition r) (sort_values t))"
  by (simp add: sort_values_def sorted_sort_key)

lemma mset_sort_values: "mset (sort_values t) = mset t"
  by (simp add: sort_values_def)

lemma filter_results_eq:
  "search_df d = Some t \<Longrightarrow> search_df (filter_results d pf) = Some (filtered pf t)"
  by (cases t) (auto simp: filter_results_def check_search_df_def filtered_def split: option.splits)

lemma annotated_steps:
  "map (\<lambda>(k, r). (k, r\<lparr>online := (if so then api_is_online svc k else False)\<rparr>))
     (map (\<lambda>(k, r). (k, r\<lparr>tile := take 5 (drop 39 (title r))\<rparr>))
       (map (\<lambda>(k, r). (k, r\<lparr>date := take 8 (drop 11 (title r))\<rparr>)) t))
   = map (annotated so svc) t"
  by (induction t) (auto simp: annotated_def)

lemma query_accepted:
  assumes "check_api d" "\<not> is_downloading d" "api_query svc kw \<noteq> []"
  shows "query d pf so kw svc f =
     update_local_info
       ((filter_results (d\<lparr>query_args := Some kw, search_df := Some (sort_values (api_query svc kw))\<rparr>) pf)
          \<lparr>search_df := Some (map (annotated so svc) (filtered pf (sort_values (api_query svc kw))))\<rparr>) f"
proof -
  let ?d2 = "d\<lparr>query_args := Some kw, search_df := Some (sort_values (api_query svc kw))\<rparr>"
  have s3: "search_df (filter_results ?d2 pf) = Some (filtered pf (sort_values (api_query svc kw)))"
    by (rule filter_results_eq) simp
  show ?thesis
    using assms
    by (simp add: query_def Let_def s3 annotated_steps del: map_map)
qed

lemmas eval_dl_defs = update_local_info_def dl_images_targets_def dl_quick_looks_targets_def
  dl_image_target_def dl_quick_look_target_def combined_df_def check_search_df_def
  dl_to_download_def download_all_def download_direct_def download_background_def
  directory_path_def set_api_def query_def filter_results_def sort_values_def
  check_api_def is_downloading_def running_def ex_session_def ex_svc_def ex_api_def
  ex_db_of_def ex_row_def

lemma ex_busy_run:
  "download_all ex_busy 10 False (ex_svc []) ex_fs_empty = Inr (ex_busy_after, ex_busy_fs)"
  by (simp add: eval_defs eval_dl_defs ex_busy_def ex_busy_after_def ex_busy_fs_def
      ex_fs_empty_def ex_empty_db_def fun_upd_twist)

lemma ex_idle_run:
  "query ex_idle None False [] (ex_svc ex_answer) ex_fs_empty = Inr (ex_idle_after, ex_fs_empty)"
  by (simp add: eval_defs eval_dl_defs ex_idle_def ex_idle_after_def ex_answer_def closed_db_def)

lemma query_busy: "is_downloading d \<Longrightarrow> query d pf so kw svc f = Inr (d, f)"
  by (simp add: query_def)

section \<open>Claims about the record store\<close>

text \<open>
  Claim C7, as amended. \<^verbatim>\<open>create\<close> on a path that exists returns \<^verbatim>\<open>False\<close> and leaves the
  filesystem as it was: no directory and no ledger file is created. The store itself is
  reset: its folder and its ledger are set to \<^verbatim>\<open>None\<close>, whatever they were.
\<close>

theorem create_existing_path:
  "exists f (parse_path base_dir) \<Longrightarrow>
     create d base_dir f = Inr (False, d\<lparr>folder := None, df := None\<rparr>, f)"
  by (simp add: create_def)

theorem create_existing_path_witness:
  "exists ex_fs (parse_path ''db'')
   \<and> create ex_db ''db'' ex_fs = Inr (False, ex_db\<lparr>folder := None, df := None\<rparr>, ex_fs)"
  using create_existing_path [of ex_fs "''db''" ex_db]
  by (simp add: exists_def node_at_def parse_path_def ex_fs_def)

text \<open>
  Claim C7 as stated fails for a store that was open: after the rejected \<^verbatim>\<open>create\<close> the
  store is no longer initialized.
\<close>

theorem create_existing_counterexample:
  "initialized ex_db \<and> exists ex_fs (parse_path ''db'')
   \<and> create ex_db ''db'' ex_fs = Inr (False, closed_db, ex_fs)
   \<and> \<not> initialized closed_db"
  by (simp add: create_def exists_def node_at_def parse_path_def ex_fs_def ex_db_def
      closed_db_def initialized_def)




text \<open>
  Claim C2, as amended. When the ledger of an initialized store has no repeated label and
  neither has \<open>r1\<close> nor \<open>r2\<close>, the ledger after merging \<open>r1\<close> and then \<open>r2\<close> has no repeated
  label, its labels are those of the old ledger, of \<open>r1\<close> and of \<open>r2\<close>, and every label of
  \<open>r1\<close> or \<open>r2\<close> occurs in it exactly once.
\<close>

theorem add_data_twice:
  assumes "df d = Some t0" "distinct (index t0)" "distinct (index r1)" "distinct (index r2)"
    and "add_data d r1 f = Inr (d1, f1)" "add_data d1 r2 f1 = Inr (d2, f2)"
  shows "\<exists>t2. df d2 = Some t2 \<and> distinct (index t2)
     \<and> set (index t2) = set (index t0) \<union> set (index r1) \<union> set (index r2)
     \<and> (\<forall>k \<in> set (index r1) \<union> set (index r2). count_list (index t2) k = 1)"
proof -
  let ?t1 = "t0 @ filter (\<lambda>(k, x). k \<notin> set (index t0)) r1"
  let ?t2 = "?t1 @ filter (\<lambda>(k, x). k \<notin> set (index ?t1)) r2"
  have d1: "df d1 = Some ?t1"
    using add_data_Inr [OF assms(1) assms(5)] by simp
  have d2: "df d2 = Some ?t2"
    using add_data_Inr [OF d1 assms(6)] by simp
  have dist1: "distinct (index ?t1)"
    by (rule distinct_merge [OF assms(2) assms(3)])
  have dist2: "distinct (index ?t2)"
    by (rule distinct_merge [OF dist1 assms(4)])
  have idx: "set (index ?t2) = set (index t0) \<union> set (index r1) \<union> set (index r2)"
  proof -
    have a: "set (index ?t2) = set (index ?t1) \<union> set (index r2)"
      by (rule index_merge)
    have b: "set (index ?t1) = set (index t0) \<union> set (index r1)"
      by (rule index_merge)
    show ?thesis by (rule trans [OF a]) (simp only: b)
  qed
  have "\<forall>k \<in> set (index r1) \<union> set (index r2). count_list (index ?t2) k = 1"
    using idx by (simp only: count_list_distinct [OF dist2]) auto
  with d2 dist2 idx show ?thesis by blast
qed

theorem add_data_twice_witness:
  "df ex_empty_db = Some [] \<and> distinct (index ex_rows_ab) \<and> distinct (index ex_rows_bc)
   \<and> add_data ex_empty_db ex_rows_ab ex_fs = Inr (ex_db_of ex_rows_ab, ex_fs_of ex_rows_ab)
   \<and> add_data (ex_db_of ex_rows_ab) ex_rows_bc (ex_fs_of ex_rows_ab)
        = Inr (ex_db_of ex_rows_abc, ex_fs_of ex_rows_abc)
   \<and> (\<exists>t2. df (ex_db_of ex_rows_abc) = Some t2 \<and> distinct (index t2)
     \<and> set (index t2) = set (index []) \<union> set (index ex_rows_ab) \<union> set (index ex_rows_bc)
     \<and> (\<forall>k \<in> set (index ex_rows_ab) \<union> set (index ex_rows_bc). count_list (index t2) k = 1))"
proof -
  have a: "df ex_empty_db = Some []" "distinct (index [])"
      "distinct (index ex_rows_ab)" "distinct (index ex_rows_bc)"
    by (simp_all add: ex_empty_db_def index_def ex_rows_ab_def ex_rows_bc_def)
  have b: "add_data ex_empty_db ex_rows_ab ex_fs = Inr (ex_db_of ex_rows_ab, ex_fs_of ex_rows_ab)"
    by (simp add: eval_defs ex_empty_db_def ex_rows_ab_def ex_db_of_def ex_fs_of_def ex_fs_def)
  have c: "add_data (ex_db_of ex_rows_ab) ex_rows_bc (ex_fs_of ex_rows_ab)
        = Inr (ex_db_of ex_rows_abc, ex_fs_of ex_rows_abc)"
    by (simp add: eval_defs ex_rows_ab_def ex_rows_bc_def ex_rows_abc_def ex_db_of_def
        ex_fs_of_def ex_fs_def)
  show ?thesis
    using add_data_twice [OF a b c] a b c by simp
qed

text \<open>
  Claim C2 as stated fails when one of the merged tables has two rows with the same
  label: \<^verbatim>\<open>add_data\<close> compares the incoming labels with those of the ledger only.
\<close>

theorem add_data_twice_counterexample:
  "initialized ex_empty_db
   \<and> add_data ex_empty_db ex_dup_rows ex_fs = Inr (ex_dup_db, ex_dup_fs)
   \<and> add_data ex_dup_db [] ex_dup_fs = Inr (ex_dup_db, ex_dup_fs)
   \<and> index (the (df ex_dup_db)) = [''u1'', ''u1'']"
  using ex_add_dup
  by (simp add: eval_defs ex_empty_db_def ex_dup_rows_def ex_dup_db_def ex_dup_fs_def ex_fs_def)

text \<open>
  Claim C3. \<^verbatim>\<open>update\<close> is idempotent: when it returns, running it again on the store and
  the filesystem it left returns the same store and the same filesystem. (The only change
  the first run makes to the filesystem is the ledger file it writes.)
\<close>

theorem update_idempotent:
  assumes "update d f = Inr (d1, f1)"
  shows "update d1 f1 = Inr (d1, f1)"
proof (cases "initialized d \<and> len d > 0")
  case False
  with assms show ?thesis by (auto simp: update_def)
next
  case True
  then obtain t where t: "df d = Some t" "t \<noteq> []"
    by (auto simp: initialized_def len_def)
  let ?csv = "\<lambda>root. joinpath root db_csv_name"
  from update_Inr [OF t assms] obtain root where root: "folder d = Some root"
    and ok: "\<forall>(k, r) \<in> set t. \<exists>b. check_image f (joinpath (joinpath root images_dir) (identifier r)) = Inr b"
    and d1: "d1 = d\<lparr>df := Some (reconcile_table f root t)\<rparr>"
    and csv: "to_csv f (?csv root) (reconcile_table f root t) = Inr f1"
    by blast
  let ?T = "reconcile_table f root t"
  have f1: "f1 = f(?csv root \<mapsto> Csv ?T)"
    using to_csv_Inr [OF csv] by simp
  have T1: "df d1 = Some ?T" and T2: "?T \<noteq> []" and T3: "folder d1 = Some root"
    using t root by (simp_all add: d1 reconcile_table_Nil)
  have ok1: "\<forall>(k, r) \<in> set ?T. \<exists>b. check_image f1 (joinpath (joinpath root images_dir) (identifier r)) = Inr b"
    using ok by (auto dest!: reconcile_table_rows simp: f1 check_image_csv identifier_reconciled)
  have again: "reconcile_table f1 root ?T = ?T"
    unfolding f1 by (rule reconcile_table_again)
  have "update d1 f1 =
     (case to_csv f1 (?csv root) ?T of
        Inl e \<Rightarrow> Inl e
      | Inr f' \<Rightarrow> Inr (d1\<lparr>df := Some ?T\<rparr>, f'))"
    using update_ok [OF T1 T2 T3 ok1] by (simp only: again)
  also have "to_csv f1 (?csv root) ?T = Inr f1"
    by (rule to_csv_again [OF csv])
  finally show ?thesis by (simp add: d1)
qed

theorem update_idempotent_witness:
  "update ex_db_dups ex_fs = Inr (ex_db_rec, ex_fs_rec)
   \<and> update ex_db_rec ex_fs_rec = Inr (ex_db_rec, ex_fs_rec)"
  using update_idempotent [OF ex_update_dups] ex_update_dups by simp




text \<open>
  Claim C9. After \<^verbatim>\<open>create\<close> has succeeded, after \<^verbatim>\<open>add_data\<close> on an initialized store and
  after \<^verbatim>\<open>update\<close> on an initialized, non-empty store, reading the ledger file back gives
  the ledger in memory. (\<^verbatim>\<open>update\<close> on an initialized, empty store changes nothing.)
\<close>

theorem write_through:
  "(create d0 base_dir f0 = Inr (True, d0', f0') \<longrightarrow> persisted d0' f0')
   \<and> (initialized d1 \<and> add_data d1 t f1 = Inr (d1', f1') \<longrightarrow> persisted d1' f1')
   \<and> (initialized d2 \<and> len d2 > 0 \<and> update d2 f2 = Inr (d2', f2') \<longrightarrow> persisted d2' f2')
   \<and> (initialized d2 \<and> len d2 = 0 \<longrightarrow> update d2 f2 = Inr (d2, f2))"
proof (intro conjI impI)
  assume "create d0 base_dir f0 = Inr (True, d0', f0')"
  from create_Inr [OF this] show "persisted d0' f0'"
    by (auto intro: save_db_persisted)
next
  assume a: "initialized d1 \<and> add_data d1 t f1 = Inr (d1', f1')"
  then obtain t1 where t1: "df d1 = Some t1" by (auto simp: initialized_def)
  from a have "add_data d1 t f1 = Inr (d1', f1')" by simp
  from add_data_Inr [OF t1 this] show "persisted d1' f1'"
    by (auto intro: save_db_persisted)
next
  assume a: "initialized d2 \<and> len d2 > 0 \<and> update d2 f2 = Inr (d2', f2')"
  then obtain t2 where t2: "df d2 = Some t2" "t2 \<noteq> []"
    by (auto simp: initialized_def len_def)
  from a have "update d2 f2 = Inr (d2', f2')" by simp
  from update_Inr [OF t2 this] show "persisted d2' f2'"
    by (auto simp: persisted_def csv_after_write)
next
  assume "initialized d2 \<and> len d2 = 0"
  then show "update d2 f2 = Inr (d2, f2)" by (simp add: update_def)
qed

theorem write_through_witness:
  "create closed_db ''new'' ex_fs = Inr (True, ex_new_db, ex_new_fs)
   \<and> persisted ex_new_db ex_new_fs
   \<and> initialized ex_empty_db
   \<and> add_data ex_empty_db ex_dup_rows ex_fs = Inr (ex_dup_db, ex_dup_fs)
   \<and> persisted ex_dup_db ex_dup_fs
   \<and> initialized ex_db_dups \<and> len ex_db_dups > 0
   \<and> update ex_db_dups ex_fs = Inr (ex_db_rec, ex_fs_rec)
   \<and> persisted ex_db_rec ex_fs_rec
   \<and> len ex_empty_db = 0
   \<and> update ex_empty_db ex_fs = Inr (ex_empty_db, ex_fs)"
proof -
  have a: "initialized ex_empty_db" "initialized ex_db_dups" "len ex_db_dups > 0" "len ex_empty_db = 0"
    by (simp_all add: initialized_def len_def ex_empty_db_def ex_db_dups_def)
  show ?thesis
    using write_through [of closed_db "''new''" ex_fs ex_new_db ex_new_fs
        ex_empty_db ex_dup_rows ex_fs ex_dup_db ex_dup_fs
        ex_db_dups ex_fs ex_db_rec ex_fs_rec]
      write_through [of closed_db "''new''" ex_fs ex_new_db ex_new_fs
        ex_empty_db ex_dup_rows ex_fs ex_dup_db ex_dup_fs
        ex_empty_db ex_fs ex_db_rec ex_fs_rec]
      a ex_create_new ex_add_dup ex_update_dups
    by simp
qed

section \<open>Claims about the session controller\<close>

text \<open>
  Claim C4. With the store initialized, the table of products to download has no repeated
  label, and a labelled row is in it exactly when its \<open>downloaded\<close> flag is false and it is
  the row found for its label in the Search Result Set or, when the label is not there, in
  the ledger: the rows of the search result take precedence. (\<open>search_rows\<close> is the Search
  Result Set, empty when there is none.)
\<close>

theorem to_download_combined:
  assumes "initialized (database d)"
  shows "\<exists>td t. dl_to_download d = Some td \<and> df (database d) = Some t
     \<and> distinct (index td)
     \<and> set td = {(k, r). (map_of t ++ map_of (search_rows d)) k = Some r \<and> \<not> downloaded r}"
proof -
  from assms obtain t where t: "df (database d) = Some t"
    by (auto simp: initialized_def)
  let ?c = "drop_duplicated (search_rows d @ t)"
  let ?td = "filter (\<lambda>(k, r). \<not> downloaded r) ?c"
  have c: "distinct (index ?c)" by (rule distinct_drop_duplicated)
  have "set ?c = {(k, r). map_of ?c k = Some r}"
    by (rule set_distinct_table [OF c])
  then have "set ?c = {(k, r). (map_of t ++ map_of (search_rows d)) k = Some r}"
    by (simp add: map_of_drop_duplicated)
  then have "set ?td = {(k, r). (map_of t ++ map_of (search_rows d)) k = Some r \<and> \<not> downloaded r}"
    by auto
  moreover have "distinct (index ?td)"
    by (rule distinct_index_filter [OF c])
  ultimately show ?thesis
    using dl_to_download_initialized [OF t] t by blast
qed

theorem to_download_combined_witness:
  "initialized (database ex_mixed)
   \<and> dl_to_download ex_mixed =
       Some [(''u1'', ex_row ''A2'' ''A''), (''u3'', ex_row ''C'' ''C''), (''u2'', ex_row ''B'' ''B'')]
   \<and> (\<exists>td t. dl_to_download ex_mixed = Some td \<and> df (database ex_mixed) = Some t
     \<and> distinct (index td)
     \<and> set td = {(k, r). (map_of t ++ map_of (search_rows ex_mixed)) k = Some r \<and> \<not> downloaded r})"
proof -
  have a: "initialized (database ex_mixed)"
    by (simp add: ex_mixed_def ex_session_def ex_db_of_def initialized_def)
  have b: "dl_to_download ex_mixed =
       Some [(''u1'', ex_row ''A2'' ''A''), (''u3'', ex_row ''C'' ''C''), (''u2'', ex_row ''B'' ''B'')]"
    by (simp add: eval_defs eval_dl_defs ex_mixed_def)
  show ?thesis
    using to_download_combined [OF a] a b by simp
qed

text \<open>
  Claim C6, at an input where the code departs from it. The store is initialized, the
  ledger and the Search Result Set hold the same product \<^verbatim>\<open>A\<close>, and \<^verbatim>\<open>images/A.SAFE\<close> exists.
  \<^verbatim>\<open>update_local_info\<close> marks the product as downloaded in the ledger (\<^verbatim>\<open>check_image\<close> accepts
  \<^verbatim>\<open>.zip\<close> or \<^verbatim>\<open>.SAFE\<close>) and as not downloaded in the Search Result Set (only
  \<^verbatim>\<open>images/<title>.zip\<close> is tested there).
\<close>

theorem update_local_info_safe:
  "initialized (database ex_safe_session)
   \<and> exists ex_fs_safe (Path False [''db'', ''images'', ''A.SAFE''])
   \<and> update_local_info ex_safe_session ex_fs_safe = Inr (ex_safe_session_after, ex_fs_safe_after)
   \<and> df (database ex_safe_session_after) = Some [(''u1'', (ex_row ''A'' ''A'')\<lparr>downloaded := True\<rparr>)]
   \<and> search_df ex_safe_session_after = Some [(''u1'', (ex_row ''A'' ''A'')\<lparr>downloaded := False\<rparr>)]"
  by (simp add: eval_defs eval_dl_defs ex_safe_session_def ex_safe_session_after_def
      ex_fs_safe_def ex_fs_safe_after_def)

text \<open>
  Claim C10. When \<^verbatim>\<open>query\<close> is not rejected and returns, the table it stored first is the
  service's answer sorted by \<open>beginposition\<close> in ascending order (the same rows), and the
  Search Result Set it leaves is still sorted and has the labels of that table after the
  post-filter.
\<close>

theorem query_sorted:
  assumes "check_api d" "\<not> is_downloading d" "query d pf so kw svc f = Inr (d', f')"
  shows "sorted (map (\<lambda>(k, r). beginposition r) (sort_values (api_query svc kw)))
     \<and> mset (sort_values (api_query svc kw)) = mset (api_query svc kw)
     \<and> (\<exists>s. search_df d' = Some s
          \<and> sorted (map (\<lambda>(k, r). beginposition r) s)
          \<and> index s = index (filtered pf (sort_values (api_query svc kw))))"
proof -
  let ?t = "sort_values (api_query svc kw)"
  let ?s0 = "map (annotated so svc) (filtered pf ?t)"
  let ?D = "(filter_results (d\<lparr>query_args := Some kw, search_df := Some ?t\<rparr>) pf)
          \<lparr>search_df := Some ?s0\<rparr>"
  have answer: "api_query svc kw \<noteq> []"
    using assms by (auto simp: query_def)
  have run: "update_local_info ?D f = Inr (d', f')"
    using assms(3) by (simp only: query_accepted [OF assms(1,2) answer])
  have "search_df ?D = Some ?s0" by simp
  from update_local_info_frame [OF run this]
  obtain s where s: "search_df d' = Some s"
    and fr: "map (\<lambda>(k, r). (k, core r)) s = map (\<lambda>(k, r). (k, core r)) ?s0"
    by blast
  have keys: "map (\<lambda>(k, r). beginposition r) ?s0 = map (\<lambda>(k, r). beginposition r) (filtered pf ?t)"
    by (simp add: annotated_def comp_def case_prod_unfold)
  have "sorted (map (\<lambda>(k, r). beginposition r) (filtered pf ?t))"
    using sorted_sort_values [of "api_query svc kw"]
    by (auto simp: filtered_def sorted_filter split: option.splits)
  then have "sorted (map (\<lambda>(k, r). beginposition r) s)"
    by (simp only: keys_of_core [OF fr] keys)
  moreover have "index s = index (filtered pf ?t)"
    using index_of_core [OF fr] by (simp add: index_def annotated_def comp_def case_prod_unfold)
  ultimately have "\<exists>s. search_df d' = Some s
          \<and> sorted (map (\<lambda>(k, r). beginposition r) s)
          \<and> index s = index (filtered pf ?t)"
    using s by blast
  then show ?thesis
    by (intro conjI sorted_sort_values mset_sort_values)
qed

theorem query_sorted_witness:
  "check_api ex_idle \<and> \<not> is_downloading ex_idle
   \<and> query ex_idle None False [] (ex_svc ex_answer) ex_fs_empty = Inr (ex_idle_after, ex_fs_empty)
   \<and> sorted (map (\<lambda>(k, r). beginposition r) (sort_values (api_query (ex_svc ex_answer) [])))
   \<and> mset (sort_values (api_query (ex_svc ex_answer) [])) = mset (api_query (ex_svc ex_answer) [])
   \<and> (\<exists>s. search_df ex_idle_after = Some s
          \<and> sorted (map (\<lambda>(k, r). beginposition r) s)
          \<and> index s = index (filtered None (sort_values (api_query (ex_svc ex_answer) []))))"
proof -
  have a: "check_api ex_idle" "\<not> is_downloading ex_idle"
    by (simp_all add: check_api_def is_downloading_def ex_idle_def ex_session_def)
  show ?thesis
    using query_sorted [OF a ex_idle_run] a ex_idle_run by simp
qed

text \<open>
  Claim C1, at an input where the code departs from it. The download future reports
  running. \<^verbatim>\<open>download_all\<close>, which does not test the future, merges the Search Result Set
  into the empty ledger, downloads and reconciles: the ledger, the ledger file and the
  images directory have changed when it returns. (\<^verbatim>\<open>query\<close> in the same session is
  rejected: lemma \<open>query_busy\<close>.)
\<close>

theorem download_all_busy:
  "is_downloading ex_busy
   \<and> download_all ex_busy 10 False (ex_svc []) ex_fs_empty = Inr (ex_busy_after, ex_busy_fs)
   \<and> df (database ex_busy) = Some []
   \<and> df (database ex_busy_after) = Some [(''u1'', (ex_row ''A'' ''A'')\<lparr>downloaded := True\<rparr>)]
   \<and> status ex_busy = None
   \<and> status ex_busy_after = Some [''u1'']
   \<and> ex_fs_empty (Path False [''db'', ''images'', ''A.zip'']) = None
   \<and> ex_busy_fs (Path False [''db'', ''images'', ''A.zip'']) = Some File
   \<and> ex_fs_empty (Path False [''db'', ''download_db.csv'']) = Some (Csv [])
   \<and> ex_busy_fs (Path False [''db'', ''download_db.csv''])
       = Some (Csv [(''u1'', (ex_row ''A'' ''A'')\<lparr>downloaded := True\<rparr>)])"
proof -
  have busy: "is_downloading ex_busy"
    by (simp add: is_downloading_def running_def ex_busy_def ex_session_def)
  with ex_busy_run show ?thesis
    by (simp add: ex_busy_def ex_busy_after_def ex_session_def ex_empty_db_def ex_db_of_def
        ex_busy_fs_def ex_fs_empty_def)
qed

end
